theory Spec2Isabelle
  imports Complex_Main
begin

section \<open>Strings\<close>

text \<open>
  A Python \<open>str\<close> is a sequence of Unicode code points, and \<open>len\<close>, \<open>strip\<close>,
  \<open>re.sub\<close> and \<open>re.split\<close> all work on code points. A string is therefore a list of
  code points (natural numbers), not a list of bytes.
\<close>

type_synonym uchar = nat
type_synonym ustr = "uchar list"

definition ascii :: "string \<Rightarrow> ustr" where
  "ascii s = map of_char s"

text \<open>
  \<open>str.isspace\<close> for one code point; the same set is matched by \<open>\s\<close> in a
  \<open>re\<close> pattern over \<open>str\<close> and removed by \<open>str.strip()\<close>.
\<close>

definition isspace :: "uchar \<Rightarrow> bool" where
  "isspace c \<longleftrightarrow>
     (9 \<le> c \<and> c \<le> 13) \<or> (28 \<le> c \<and> c \<le> 32) \<or> c = 133 \<or> c = 160 \<or> c = 5760 \<or>
     (8192 \<le> c \<and> c \<le> 8202) \<or> c = 8232 \<or> c = 8233 \<or> c = 8239 \<or> c = 8287 \<or> c = 12288"

definition strip :: "ustr \<Rightarrow> ustr" where
  "strip s = rev (dropWhile isspace (rev (dropWhile isspace s)))"

section \<open>Text cleaner\<close>

text \<open>
  \<open>match_markup s\<close> is the match of the pattern \<open><\|[^|]*\|>\<close> anchored at the head of
  \<open>s\<close>: the text after the match, if there is one. After \<open><|\<close> the class \<open>[^|]*\<close> takes the
  longest run without a bar; giving characters back cannot help, since the next character
  of the pattern is a bar.
\<close>

definition match_markup :: "ustr \<Rightarrow> ustr option" where
  "match_markup s =
     (case s of
        a # b # r \<Rightarrow>
          if a = 60 \<and> b = 124 then
            (case dropWhile (\<lambda>c. c \<noteq> 124) r of
               p # g # rest \<Rightarrow> if g = 62 then Some rest else None
             | _ \<Rightarrow> None)
          else None
      | _ \<Rightarrow> None)"

lemma match_markup_shorter: "match_markup s = Some rest \<Longrightarrow> length rest < length s"
proof -
  assume m: "match_markup s = Some rest"
  then obtain a b r where s: "s = a # b # r"
    by (cases s rule: list.exhaust[case_product list.exhaust])
       (auto simp: match_markup_def split: list.splits)
  from m s obtain p g where d: "dropWhile (\<lambda>c. c \<noteq> 124) r = p # g # rest"
    by (auto simp: match_markup_def split: list.splits if_splits)
  have "length (dropWhile (\<lambda>c. c \<noteq> 124) r) \<le> length r"
    by (rule length_dropWhile_le)
  with d s show ?thesis by simp
qed

text \<open>\<open>re.sub(r'<\|[^|]*\|>', '', text)\<close>: leftmost matches, scanned left to right.\<close>

function remove_markup :: "ustr \<Rightarrow> ustr" where
  "remove_markup [] = []"
| "remove_markup (c # cs) =
     (case match_markup (c # cs) of
        Some rest \<Rightarrow> remove_markup rest
      | None \<Rightarrow> c # remove_markup cs)"
  by pat_completeness auto
termination
  by (relation "measure length") (auto dest: match_markup_shorter)

text \<open>\<open>re.sub(r'\s+', ' ', text)\<close>: every maximal run of whitespace becomes one space.\<close>

function collapse_ws :: "ustr \<Rightarrow> ustr" where
  "collapse_ws [] = []"
| "collapse_ws (c # cs) =
     (if isspace c then 32 # collapse_ws (dropWhile isspace cs) else c # collapse_ws cs)"
  by pat_completeness auto
termination
  by (relation "measure length") (auto simp: le_imp_less_Suc length_dropWhile_le)

definition clean_text :: "ustr \<Rightarrow> ustr" where
  "clean_text text =
     (if text = [] then []
      else strip (collapse_ws (remove_markup text)))"

section \<open>Numbers\<close>

text \<open>
  A Python \<open>float\<close> is modelled by the rational number it denotes and float arithmetic by
  exact arithmetic; the rounding and the range of binary64 are not modelled. The general
  statements below about seconds are about the order of values, which correct rounding
  keeps, and about the shape of the printed text; the examples use times that binary64
  holds exactly (such as 65.5, 1.25 or 0.125 seconds), at which the arithmetic of the
  source is exact as well.
\<close>

definition ms_to_sec :: "int \<Rightarrow> rat" where
  "ms_to_sec ms = of_int ms / 1000"

section \<open>Errors\<close>

datatype py_error = KeyError | TypeError | ValueError

definition bind :: "py_error + 'a \<Rightarrow> ('a \<Rightarrow> py_error + 'b) \<Rightarrow> py_error + 'b" where
  "bind m f = (case m of Inl e \<Rightarrow> Inl e | Inr v \<Rightarrow> f v)"

section \<open>Segmenter\<close>

record word_timing =
  w_word :: ustr
  w_start :: rat
  w_end :: rat

record segment =
  seg_text :: ustr
  seg_start :: "rat option"
  seg_end :: "rat option"
  seg_words :: "word_timing list"

definition empty_segment :: segment where
  "empty_segment = \<lparr>seg_text = [], seg_start = None, seg_end = None, seg_words = []\<rparr>"

text \<open>\<open>word.startswith('<|') and word.endswith('|>')\<close>\<close>

definition is_markup :: "ustr \<Rightarrow> bool" where
  "is_markup w \<longleftrightarrow> take 2 w = [60, 124] \<and> drop (length w - 2) w = [124, 62]"

text \<open>The words that close a segment, in the order of the source: the ideographic full
  stop U+3002, the fullwidth \<open>!\<close> U+FF01 and \<open>?\<close> U+FF1F, then \<open>.\<close>, \<open>!\<close>, \<open>?\<close>,
  \<open>,\<close> and the fullwidth comma U+FF0C.\<close>

definition terminators :: "ustr list" where
  "terminators = [[12290], [65281], [65311], [46], [33], [63], [44], [65292]]"

record seg_state =
  segments :: "segment list"
  current_segment :: segment

definition init_state :: seg_state where
  "init_state = \<lparr>segments = [], current_segment = empty_segment\<rparr>"

text \<open>
  One round of the loop over \<open>enumerate(zip(words, timestamps))\<close>; \<open>n\<close> is \<open>len(words)\<close>.
  Unpacking \<open>start_ms, end_ms = timestamp\<close> raises \<open>ValueError\<close> unless the timestamp has
  exactly two entries.
\<close>

definition seg_step :: "nat \<Rightarrow> nat \<times> ustr \<times> int list \<Rightarrow> seg_state \<Rightarrow> py_error + seg_state" where
  "seg_step n x st =
     (case x of (i, word, timestamp) \<Rightarrow>
        if is_markup word then Inr st
        else
          (case timestamp of
             [start_ms, end_ms] \<Rightarrow>
               let start_sec = ms_to_sec start_ms;
                   end_sec = ms_to_sec end_ms;
                   cur = current_segment st;
                   cur1 = (if seg_start cur = None then cur\<lparr>seg_start := Some start_sec\<rparr> else cur);
                   cur2 = cur1\<lparr>seg_text := seg_text cur1 @ word,
                               seg_end := Some end_sec,
                               seg_words := seg_words cur1 @
                                 [\<lparr>w_word = word, w_start = start_sec, w_end = end_sec\<rparr>]\<rparr>
               in
                 if word \<in> set terminators \<or> i = n - 1 then
                   Inr \<lparr>segments =
                          (if strip (seg_text cur2) \<noteq> [] then segments st @ [cur2]
                           else segments st),
                        current_segment = empty_segment\<rparr>
                 else Inr (st\<lparr>current_segment := cur2\<rparr>)
           | _ \<Rightarrow> Inl ValueError))"

fun seg_loop :: "nat \<Rightarrow> (nat \<times> ustr \<times> int list) list \<Rightarrow> seg_state \<Rightarrow> py_error + seg_state" where
  "seg_loop n [] st = Inr st"
| "seg_loop n (x # xs) st = bind (seg_step n x st) (seg_loop n xs)"

definition enumerate :: "'a list \<Rightarrow> (nat \<times> 'a) list" where
  "enumerate xs = zip [0..<length xs] xs"

definition create_segments_from_timestamps ::
  "ustr \<Rightarrow> int list list \<Rightarrow> ustr list \<Rightarrow> py_error + segment list" where
  "create_segments_from_timestamps text timestamps words =
     (if timestamps = [] \<or> words = [] \<or> length timestamps \<noteq> length words then Inr []
      else bind (seg_loop (length words) (enumerate (zip words timestamps)) init_state)
             (\<lambda>st. Inr (segments st)))"

section \<open>Values of the transcription result\<close>

text \<open>
  The renderer takes a \<open>Dict[str, Any]\<close>. Its values are modelled by the objects that the
  pipeline and JSON can hold; a dictionary is an association list whose first entry for a
  key is the one that counts.
\<close>

datatype pyval =
    PNone
  | PBool bool
  | PInt int
  | PFloat rat
  | PStr ustr
  | PList "pyval list"
  | PDict "(ustr \<times> pyval) list"

type_synonym pydict = "(ustr \<times> pyval) list"

text \<open>
  Two functions of the Python library are parameters of the model: \<open>repr\<close>, which gives
  \<open>str(v)\<close> for floats, lists and dictionaries, and \<open>json.dumps(v, ensure_ascii=False,
  indent=2)\<close>. Both return a string for every value above.
\<close>

record builtins =
  py_repr :: "pyval \<Rightarrow> ustr"
  json_dumps :: "pyval \<Rightarrow> ustr"

text \<open>Truth value of an object, as \<open>if v:\<close> and \<open>not v\<close> test it.\<close>

fun truthy :: "pyval \<Rightarrow> bool" where
  "truthy PNone = False"
| "truthy (PBool b) = b"
| "truthy (PInt i) = (i \<noteq> 0)"
| "truthy (PFloat r) = (r \<noteq> 0)"
| "truthy (PStr s) = (s \<noteq> [])"
| "truthy (PList xs) = (xs \<noteq> [])"
| "truthy (PDict kvs) = (kvs \<noteq> [])"

text \<open>\<open>v[key]\<close> with a string key: \<open>KeyError\<close> on a dictionary without the key,
  \<open>TypeError\<close> on every other object.\<close>

fun getitem :: "pyval \<Rightarrow> ustr \<Rightarrow> py_error + pyval" where
  "getitem (PDict kvs) k = (case map_of kvs k of None \<Rightarrow> Inl KeyError | Some v \<Rightarrow> Inr v)"
| "getitem _ k = Inl TypeError"

text \<open>\<open>isinstance(v, dict) and key in v\<close>\<close>

fun dict_has :: "pyval \<Rightarrow> ustr \<Rightarrow> bool" where
  "dict_has (PDict kvs) k = (map_of kvs k \<noteq> None)"
| "dict_has _ k = False"

text \<open>\<open>d.get(key, default)\<close> on a dictionary.\<close>

definition dict_get :: "pydict \<Rightarrow> ustr \<Rightarrow> pyval \<Rightarrow> pyval" where
  "dict_get kvs k d = (case map_of kvs k of None \<Rightarrow> d | Some v \<Rightarrow> v)"

text \<open>The items a \<open>for\<close> loop sees: the elements of a list, the characters of a string,
  the keys of a dictionary; other objects are not iterable.\<close>

fun py_iter :: "pyval \<Rightarrow> py_error + pyval list" where
  "py_iter (PList xs) = Inr xs"
| "py_iter (PStr s) = Inr (map (\<lambda>c. PStr [c]) s)"
| "py_iter (PDict kvs) = Inr (map (\<lambda>kv. PStr (fst kv)) kvs)"
| "py_iter _ = Inl TypeError"

fun py_len :: "pyval \<Rightarrow> py_error + nat" where
  "py_len (PStr s) = Inr (length s)"
| "py_len (PList xs) = Inr (length xs)"
| "py_len (PDict kvs) = Inr (length kvs)"
| "py_len _ = Inl TypeError"

text \<open>The value of a number in arithmetic; \<open>bool\<close> is a subclass of \<open>int\<close>.\<close>

fun to_number :: "pyval \<Rightarrow> py_error + rat" where
  "to_number (PInt i) = Inr (of_int i)"
| "to_number (PFloat r) = Inr r"
| "to_number (PBool b) = Inr (if b then 1 else 0)"
| "to_number _ = Inl TypeError"

section \<open>Printing numbers\<close>

fun dec_nat :: "nat \<Rightarrow> ustr" where
  "dec_nat n = (if n < 10 then [48 + n] else dec_nat (n div 10) @ [48 + n mod 10])"

declare dec_nat.simps [simp del]

definition dec_int :: "int \<Rightarrow> ustr" where
  "dec_int i = (if i < 0 then 45 # dec_nat (nat (- i)) else dec_nat (nat i))"

text \<open>The format \<open>{n:0wd}\<close>: zeros between the sign and the digits up to width \<open>w\<close>.\<close>

definition format_0d :: "nat \<Rightarrow> int \<Rightarrow> ustr" where
  "format_0d w n =
     (let ds = dec_nat (nat \<bar>n\<bar>);
          sign = (if n < 0 then [45] else [])
      in sign @ replicate (w - length sign - length ds) 48 @ ds)"

text \<open>\<open>int(x)\<close> truncates towards zero; \<open>x // y\<close> and \<open>x % y\<close> round the quotient down.\<close>

definition py_int :: "rat \<Rightarrow> int" where
  "py_int x = (if 0 \<le> x then \<lfloor>x\<rfloor> else \<lceil>x\<rceil>)"

definition py_floordiv :: "rat \<Rightarrow> rat \<Rightarrow> rat" where
  "py_floordiv x y = of_int \<lfloor>x / y\<rfloor>"

definition py_mod :: "rat \<Rightarrow> rat \<Rightarrow> rat" where
  "py_mod x y = x - y * of_int \<lfloor>x / y\<rfloor>"

definition round_half_even :: "rat \<Rightarrow> int" where
  "round_half_even x =
     (let f = \<lfloor>x\<rfloor>; d = x - of_int f
      in if d < 1 / 2 then f else if 1 / 2 < d then f + 1 else if even f then f else f + 1)"

text \<open>The format \<open>{x:06.3f}\<close>: three decimals, rounded half to even, zero-padded to six
  characters.\<close>

definition format_06_3f :: "rat \<Rightarrow> ustr" where
  "format_06_3f x =
     (let k = nat (round_half_even (\<bar>x\<bar> * 1000));
          body = dec_nat (k div 1000) @ [46] @ format_0d 3 (int (k mod 1000));
          sign = (if x < 0 then [45] else [])
      in sign @ replicate (6 - length sign - length body) 48 @ body)"

text \<open>\<open>str(v)\<close>, as an f-string field without format prints it.\<close>

fun py_str :: "builtins \<Rightarrow> pyval \<Rightarrow> ustr" where
  "py_str B (PStr s) = s"
| "py_str B (PInt i) = dec_int i"
| "py_str B (PBool b) = (if b then ascii ''True'' else ascii ''False'')"
| "py_str B PNone = ascii ''None''"
| "py_str B v = py_repr B v"

section \<open>Time codes\<close>

definition srt_time :: "rat \<Rightarrow> ustr" where
  "srt_time seconds =
     (let hours = py_int (py_floordiv seconds 3600);
          minutes = py_int (py_floordiv (py_mod seconds 3600) 60);
          secs = py_int (py_mod seconds 60);
          millisecs = py_int ((seconds - of_int (py_int seconds)) * 1000)
      in format_0d 2 hours @ [58] @ format_0d 2 minutes @ [58] @ format_0d 2 secs @ [44] @
         format_0d 3 millisecs)"

definition vtt_time :: "rat \<Rightarrow> ustr" where
  "vtt_time seconds =
     (let hours = py_int (py_floordiv seconds 3600);
          minutes = py_int (py_floordiv (py_mod seconds 3600) 60);
          secs = py_mod seconds 60
      in format_0d 2 hours @ [58] @ format_0d 2 minutes @ [58] @ format_06_3f secs)"

text \<open>The two methods take any object; arithmetic on anything but a number raises
  \<open>TypeError\<close>.\<close>

definition seconds_to_srt_time :: "pyval \<Rightarrow> py_error + ustr" where
  "seconds_to_srt_time v = bind (to_number v) (\<lambda>seconds. Inr (srt_time seconds))"

definition seconds_to_vtt_time :: "pyval \<Rightarrow> py_error + ustr" where
  "seconds_to_vtt_time v = bind (to_number v) (\<lambda>seconds. Inr (vtt_time seconds))"

section \<open>Fallback sentence splitting\<close>

text \<open>\<open>re.split\<close> on a character class: every delimiter ends a piece, so two adjacent
  delimiters enclose an empty piece.\<close>

fun re_split :: "(uchar \<Rightarrow> bool) \<Rightarrow> ustr \<Rightarrow> ustr list" where
  "re_split P [] = [[]]"
| "re_split P (c # cs) =
     (if P c then [] # re_split P cs
      else (case re_split P cs of [] \<Rightarrow> [[c]] | p # ps \<Rightarrow> (c # p) # ps))"

text \<open>The character class of the split pattern: U+3002, U+FF01, U+FF1F, \<open>.\<close>, \<open>!\<close>
  and \<open>?\<close>; the same six characters are the ones that
  \<open>sentence.endswith\<close> looks for.\<close>

definition sentence_end :: "uchar \<Rightarrow> bool" where
  "sentence_end c \<longleftrightarrow> c = 12290 \<or> c = 65281 \<or> c = 65311 \<or> c = 46 \<or> c = 33 \<or> c = 63"

definition ends_with_sentence_end :: "ustr \<Rightarrow> bool" where
  "ends_with_sentence_end s \<longleftrightarrow> s \<noteq> [] \<and> sentence_end (last s)"

text \<open>\<open>[s.strip() for s in re.split(pattern, text) if s.strip()]\<close>\<close>

definition split_sentences :: "ustr \<Rightarrow> ustr list" where
  "split_sentences text = map strip (filter (\<lambda>s. strip s \<noteq> []) (re_split sentence_end text))"

text \<open>\<open>max(2.0, len(sentence) * 0.4)\<close>\<close>

definition duration_of :: "nat \<Rightarrow> rat" where
  "duration_of n = max 2 (of_nat n * (2 / 5))"

definition restore_punctuation :: "ustr \<Rightarrow> ustr" where
  "restore_punctuation sentence =
     (if \<not> ends_with_sentence_end sentence then sentence @ [12290] else sentence)"

section \<open>SRT rendering\<close>

definition arrow :: ustr where
  "arrow = ascii '' --> ''"

text \<open>Tier 1: the loop over \<open>result["formatted_segments"]\<close>; the third argument is
  \<open>srt_content\<close>.\<close>

fun srt_formatted_loop :: "builtins \<Rightarrow> pyval list \<Rightarrow> ustr \<Rightarrow> py_error + ustr" where
  "srt_formatted_loop B [] srt_content = Inr srt_content"
| "srt_formatted_loop B (segment # rest) srt_content =
     bind (getitem segment (ascii ''start_time'')) (\<lambda>st.
     bind (seconds_to_srt_time st) (\<lambda>start_time.
     bind (getitem segment (ascii ''end_time'')) (\<lambda>et.
     bind (seconds_to_srt_time et) (\<lambda>end_time.
     bind (getitem segment (ascii ''index'')) (\<lambda>index.
     bind (getitem segment (ascii ''text'')) (\<lambda>text.
       srt_formatted_loop B rest
         (srt_content @ py_str B index @ [10] @
          start_time @ arrow @ end_time @ [10] @
          py_str B text @ [10, 10])))))))"

text \<open>Tier 2: the loop over \<open>enumerate(result["segments"])\<close>. An entry that is not a
  dictionary with both keys is passed over.\<close>

fun srt_segments_loop :: "builtins \<Rightarrow> (nat \<times> pyval) list \<Rightarrow> ustr \<Rightarrow> py_error + ustr" where
  "srt_segments_loop B [] srt_content = Inr srt_content"
| "srt_segments_loop B ((i, segment) # rest) srt_content =
     (if dict_has segment (ascii ''start'') \<and> dict_has segment (ascii ''end'') then
        bind (getitem segment (ascii ''start'')) (\<lambda>st.
        bind (seconds_to_srt_time st) (\<lambda>start_time.
        bind (getitem segment (ascii ''end'')) (\<lambda>et.
        bind (seconds_to_srt_time et) (\<lambda>end_time.
          let text = (case segment of PDict kvs \<Rightarrow> dict_get kvs (ascii ''text'') (PStr [])
                      | _ \<Rightarrow> PStr [])
          in srt_segments_loop B rest
               (srt_content @ dec_nat (i + 1) @ [10] @
                start_time @ arrow @ end_time @ [10] @
                py_str B text @ [10, 10])))))
      else srt_segments_loop B rest srt_content)"

text \<open>Tier 3: the loop over \<open>enumerate(sentences)\<close> with the running clock
  \<open>current_time\<close>.\<close>

fun srt_fallback_loop :: "(nat \<times> ustr) list \<Rightarrow> rat \<Rightarrow> ustr \<Rightarrow> ustr" where
  "srt_fallback_loop [] current_time srt_content = srt_content"
| "srt_fallback_loop ((i, sentence) # rest) current_time srt_content =
     (let duration = duration_of (length sentence);
          start_time = srt_time current_time;
          end_time = srt_time (current_time + duration)
      in srt_fallback_loop rest (current_time + duration)
           (srt_content @ dec_nat (i + 1) @ [10] @
            start_time @ arrow @ end_time @ [10] @
            restore_punctuation sentence @ [10, 10]))"

definition format_as_srt :: "builtins \<Rightarrow> pydict \<Rightarrow> py_error + ustr" where
  "format_as_srt B result =
     (if map_of result (ascii ''formatted_segments'') \<noteq> None \<and>
         truthy (dict_get result (ascii ''formatted_segments'') PNone) then
        bind (py_iter (dict_get result (ascii ''formatted_segments'') PNone)) (\<lambda>segments.
          srt_formatted_loop B segments [])
      else if map_of result (ascii ''segments'') \<noteq> None \<and>
         truthy (dict_get result (ascii ''segments'') PNone) then
        bind (py_iter (dict_get result (ascii ''segments'') PNone)) (\<lambda>segments.
          srt_segments_loop B (enumerate segments) [])
      else
        (let text = dict_get result (ascii ''text'') (PStr [])
         in if truthy text then
              (case text of
                 PStr t \<Rightarrow> Inr (srt_fallback_loop (enumerate (split_sentences t)) 0 [])
               | _ \<Rightarrow> Inl TypeError)
            else Inr []))"

section \<open>VTT rendering\<close>

fun vtt_formatted_loop :: "builtins \<Rightarrow> pyval list \<Rightarrow> ustr \<Rightarrow> py_error + ustr" where
  "vtt_formatted_loop B [] vtt_content = Inr vtt_content"
| "vtt_formatted_loop B (segment # rest) vtt_content =
     bind (getitem segment (ascii ''start_time'')) (\<lambda>st.
     bind (seconds_to_vtt_time st) (\<lambda>start_time.
     bind (getitem segment (ascii ''end_time'')) (\<lambda>et.
     bind (seconds_to_vtt_time et) (\<lambda>end_time.
     bind (getitem segment (ascii ''text'')) (\<lambda>text.
       vtt_formatted_loop B rest
         (vtt_content @ start_time @ arrow @ end_time @ [10] @
          py_str B text @ [10, 10]))))))"

text \<open>Tier 2 of VTT estimates a time for the entries without \<open>start\<close> and \<open>end\<close>
  from the length of their text and their position.\<close>

fun vtt_segments_loop :: "builtins \<Rightarrow> (nat \<times> pyval) list \<Rightarrow> ustr \<Rightarrow> py_error + ustr" where
  "vtt_segments_loop B [] vtt_content = Inr vtt_content"
| "vtt_segments_loop B ((i, segment) # rest) vtt_content =
     (case segment of
        PDict kvs \<Rightarrow>
          bind
            (if dict_has segment (ascii ''start'') \<and> dict_has segment (ascii ''end'') then
               bind (getitem segment (ascii ''start'')) (\<lambda>st.
               bind (seconds_to_vtt_time st) (\<lambda>start_time.
               bind (getitem segment (ascii ''end'')) (\<lambda>et.
               bind (seconds_to_vtt_time et) (\<lambda>end_time.
                 Inr (start_time, end_time)))))
             else
               bind (py_len (dict_get kvs (ascii ''text'') (PStr []))) (\<lambda>n.
                 let duration = duration_of n
                 in Inr (vtt_time (of_nat i * duration), vtt_time ((of_nat i + 1) * duration))))
            (\<lambda>(start_time, end_time).
               let text = dict_get kvs (ascii ''text'') (PStr (py_str B segment))
               in vtt_segments_loop B rest
                    (vtt_content @ start_time @ arrow @ end_time @ [10] @
                     py_str B text @ [10, 10]))
      | _ \<Rightarrow>
          (let text = py_str B segment;
               duration = duration_of (length text);
               start_time = vtt_time (of_nat i * duration);
               end_time = vtt_time ((of_nat i + 1) * duration)
           in vtt_segments_loop B rest
                (vtt_content @ start_time @ arrow @ end_time @ [10] @ text @ [10, 10])))"

fun vtt_fallback_loop :: "ustr list \<Rightarrow> rat \<Rightarrow> ustr \<Rightarrow> ustr" where
  "vtt_fallback_loop [] current_time vtt_content = vtt_content"
| "vtt_fallback_loop (sentence # rest) current_time vtt_content =
     (let duration = duration_of (length sentence);
          start_time = vtt_time current_time;
          end_time = vtt_time (current_time + duration)
      in vtt_fallback_loop rest (current_time + duration)
           (vtt_content @ start_time @ arrow @ end_time @ [10] @
            restore_punctuation sentence @ [10, 10]))"

definition webvtt_header :: ustr where
  "webvtt_header = ascii ''WEBVTT'' @ [10, 10]"

definition format_as_vtt :: "builtins \<Rightarrow> pydict \<Rightarrow> py_error + ustr" where
  "format_as_vtt B result =
     (if map_of result (ascii ''formatted_segments'') \<noteq> None \<and>
         truthy (dict_get result (ascii ''formatted_segments'') PNone) then
        bind (py_iter (dict_get result (ascii ''formatted_segments'') PNone)) (\<lambda>segments.
          vtt_formatted_loop B segments webvtt_header)
      else if map_of result (ascii ''segments'') \<noteq> None \<and>
         truthy (dict_get result (ascii ''segments'') PNone) then
        bind (py_iter (dict_get result (ascii ''segments'') PNone)) (\<lambda>segments.
          vtt_segments_loop B (enumerate segments) webvtt_header)
      else
        (let text = dict_get result (ascii ''text'') (PStr [])
         in if truthy text then
              (case text of
                 PStr t \<Rightarrow> Inr (vtt_fallback_loop (split_sentences t) 0 webvtt_header)
               | _ \<Rightarrow> Inl TypeError)
            else Inr webvtt_header))"

section \<open>The renderer\<close>

text \<open>The prefix of the failure message and the default for a missing \<open>error\<close> entry.\<close>

definition failure_prefix :: ustr where
  "failure_prefix = [36716, 24405, 22833, 36133, 58, 32]"

definition unknown_error :: ustr where
  "unknown_error = [26410, 30693, 38169, 35823]"

text \<open>\<open>format_transcription_output\<close> has no handler of its own: an exception of a
  tier leaves it as it is, here the \<open>Inl\<close> of the result. For the format \<open>text\<close> it
  returns the object stored under \<open>text\<close>, whatever it is.\<close>

definition format_transcription_output :: "builtins \<Rightarrow> pydict \<Rightarrow> ustr \<Rightarrow> py_error + pyval" where
  "format_transcription_output B result output_format =
     bind (getitem (PDict result) (ascii ''success'')) (\<lambda>success.
       if \<not> truthy success then
         Inr (PStr (failure_prefix @
                    py_str B (dict_get result (ascii ''error'') (PStr unknown_error))))
       else if output_format = ascii ''text'' then getitem (PDict result) (ascii ''text'')
       else if output_format = ascii ''srt'' then
         bind (format_as_srt B result) (\<lambda>s. Inr (PStr s))
       else if output_format = ascii ''vtt'' then
         bind (format_as_vtt B result) (\<lambda>s. Inr (PStr s))
       else if output_format = ascii ''json'' then Inr (PStr (json_dumps B (PDict result)))
       else getitem (PDict result) (ascii ''text''))"

section \<open>Notions used in the statements and proofs\<close>

subsection \<open>Text cleaner\<close>

text \<open>A string in which every whitespace character is a single space that is not followed
  by whitespace.\<close>

fun ws_normal :: "ustr \<Rightarrow> bool" where
  "ws_normal [] = True"
| "ws_normal (c # cs) =
     (if isspace c then c = 32 \<and> (case cs of [] \<Rightarrow> True | d # _ \<Rightarrow> \<not> isspace d) \<and> ws_normal cs
      else ws_normal cs)"

subsection \<open>Segmenter\<close>





text \<open>A segment that is made of its word records: its text is their concatenation, none
  of them is markup, and its times are the start of the first and the end of the last.\<close>

definition seg_faithful :: "segment \<Rightarrow> bool" where
  "seg_faithful s \<longleftrightarrow>
     seg_text s = concat (map w_word (seg_words s)) \<and>
     list_all (\<lambda>w. \<not> is_markup (w_word w)) (seg_words s) \<and>
     seg_start s = (if seg_words s = [] then None else Some (w_start (hd (seg_words s)))) \<and>
     seg_end s = (if seg_words s = [] then None else Some (w_end (last (seg_words s))))"

text \<open>The open segment after a word has been added to it.\<close>

definition extend_segment :: "segment \<Rightarrow> ustr \<Rightarrow> int \<Rightarrow> int \<Rightarrow> segment" where
  "extend_segment cur w s e =
     \<lparr>seg_text = seg_text cur @ w,
      seg_start = (if seg_start cur = None then Some (ms_to_sec s) else seg_start cur),
      seg_end = Some (ms_to_sec e),
      seg_words = seg_words cur @ [\<lparr>w_word = w, w_start = ms_to_sec s, w_end = ms_to_sec e\<rparr>]\<rparr>"

definition faithful_state :: "seg_state \<Rightarrow> bool" where
  "faithful_state st \<longleftrightarrow>
     (\<forall>s\<in>set (segments st). seg_faithful s \<and> seg_words s \<noteq> []) \<and>
     seg_faithful (current_segment st)"

subsection \<open>Time codes\<close>

text \<open>A number below 100, or below 1000, in decimal digits of fixed width.\<close>

definition two_digits :: "nat \<Rightarrow> ustr" where
  "two_digits n = [48 + n div 10, 48 + n mod 10]"

definition three_digits :: "nat \<Rightarrow> ustr" where
  "three_digits n = [48 + n div 100, 48 + n div 10 mod 10, 48 + n mod 10]"

subsection \<open>Cues\<close>





subsection \<open>Fallback sentences\<close>




subsection \<open>Example inputs\<close>

text \<open>Library functions for the examples, whose values hold only strings and integers
  where they are printed.\<close>

definition no_builtins :: builtins where
  "no_builtins = \<lparr>py_repr = (\<lambda>v. []), json_dumps = (\<lambda>v. [])\<rparr>"


text \<open>A result whose segments carry no pair of \<open>start\<close> and \<open>end\<close>.\<close>

definition untimed_result :: pydict where
  "untimed_result =
     [(ascii ''success'', PBool True),
      (ascii ''text'', PStr (ascii ''hello'')),
      (ascii ''segments'', PList [PStr (ascii ''hello''),
                                 PDict [(ascii ''text'', PStr (ascii ''hello'')), (ascii ''start'', PFloat 0)]])]"



section \<open>Properties of the text cleaner\<close>

lemma length_remove_markup: "length (remove_markup s) \<le> length s"
proof (induction s rule: remove_markup.induct)
  case 1
  show ?case by simp
next
  case (2 c cs)
  show ?case
  proof (cases "match_markup (c # cs)")
    case None
    with 2 show ?thesis by simp
  next
    case (Some rest)
    with 2 have "length (remove_markup rest) \<le> length rest" by simp
    moreover from Some have "length rest < length (c # cs)" by (rule match_markup_shorter)
    ultimately show ?thesis using Some by simp
  qed
qed

lemma remove_markup_fix_iff: "remove_markup s = s \<longleftrightarrow> length (remove_markup s) = length s"
proof (induction s rule: remove_markup.induct)
  case 1
  show ?case by simp
next
  case (2 c cs)
  show ?case
  proof (cases "match_markup (c # cs)")
    case None
    with 2 show ?thesis by simp
  next
    case (Some rest)
    have "length (remove_markup rest) \<le> length rest" by (rule length_remove_markup)
    moreover from Some have "length rest < length (c # cs)" by (rule match_markup_shorter)
    ultimately have "length (remove_markup (c # cs)) < length (c # cs)" using Some by simp
    then show ?thesis by auto
  qed
qed

lemma length_collapse_ws: "length (collapse_ws s) \<le> length s"
proof (induction s rule: collapse_ws.induct)
  case 1
  show ?case by simp
next
  case (2 c cs)
  have "length (dropWhile isspace cs) \<le> length cs" by (rule length_dropWhile_le)
  with 2 show ?case by auto
qed

lemma length_strip: "length (strip s) \<le> length s"
proof -
  have "length (strip s) \<le> length (dropWhile isspace s)"
    unfolding strip_def using length_dropWhile_le[of isspace "rev (dropWhile isspace s)"] by simp
  also have "\<dots> \<le> length s" by (rule length_dropWhile_le)
  finally show ?thesis .
qed

lemma ws_normal_dropWhile: "ws_normal s \<Longrightarrow> ws_normal (dropWhile P s)"
  by (induction s) (auto split: if_splits)

lemma ws_normal_collapse: "ws_normal (collapse_ws s)"
proof (induction s rule: collapse_ws.induct)
  case 1
  show ?case by simp
next
  case (2 c cs)
  show ?case
  proof (cases "isspace c")
    case False
    with 2 show ?thesis by simp
  next
    case True
    have hd: "collapse_ws (dropWhile isspace cs) = [] \<or>
        \<not> isspace (hd (collapse_ws (dropWhile isspace cs)))"
    proof (cases "dropWhile isspace cs")
      case Nil
      then have "collapse_ws (dropWhile isspace cs) = []" by (simp only: collapse_ws.simps)
      then show ?thesis ..
    next
      case (Cons d ds)
      then have "\<not> isspace d" by (metis hd_dropWhile list.sel(1) list.distinct(1))
      with Cons show ?thesis by simp
    qed
    from True 2 have "ws_normal (collapse_ws (dropWhile isspace cs))" by simp
    with True hd show ?thesis by (auto split: list.splits)
  qed
qed

lemma collapse_ws_normal: "ws_normal s \<Longrightarrow> collapse_ws s = s"
proof (induction s rule: collapse_ws.induct)
  case 1
  show ?case by simp
next
  case (2 c cs)
  show ?case
  proof (cases "isspace c")
    case False
    with 2 show ?thesis by simp
  next
    case True
    with 2(3) have c: "c = 32" and n: "ws_normal cs"
      and h: "cs = [] \<or> \<not> isspace (hd cs)"
      by (auto split: list.splits)
    from h have d: "dropWhile isspace cs = cs" by (cases cs) auto
    with True 2(1) n have "collapse_ws cs = cs" by simp
    with True c d show ?thesis by simp
  qed
qed

lemma ws_normal_butlast: "ws_normal s \<Longrightarrow> ws_normal (butlast s)"
  by (induction s) (auto split: if_splits list.splits)

lemma ws_normal_strip_right: "ws_normal s \<Longrightarrow> ws_normal (rev (dropWhile P (rev s)))"
proof (induction s rule: rev_induct)
  case Nil
  show ?case by simp
next
  case (snoc c s)
  from snoc.prems have "ws_normal (butlast (s @ [c]))" by (rule ws_normal_butlast)
  then have "ws_normal s" by simp
  with snoc show ?case by simp
qed

lemma ws_normal_strip: "ws_normal s \<Longrightarrow> ws_normal (strip s)"
  unfolding strip_def by (intro ws_normal_strip_right ws_normal_dropWhile)

lemma strip_ends: "strip s = [] \<or> (\<not> isspace (hd (strip s)) \<and> \<not> isspace (last (strip s)))"
proof (cases "strip s = []")
  case True
  then show ?thesis by simp
next
  case False
  define t where "t = dropWhile isspace s"
  have st: "strip s = rev (dropWhile isspace (rev t))" by (simp add: strip_def t_def)
  with False have ne: "dropWhile isspace (rev t) \<noteq> []" by simp
  then have l: "\<not> isspace (hd (dropWhile isspace (rev t)))" by (rule hd_dropWhile)
  have "last (strip s) = hd (dropWhile isspace (rev t))"
    using ne by (simp add: st last_rev)
  with l have 1: "\<not> isspace (last (strip s))" by simp
  from False st have tne: "t \<noteq> []" by auto
  then have ht: "\<not> isspace (hd t)" unfolding t_def by (rule hd_dropWhile)
  have "\<exists>n. strip s = take n t"
    unfolding st by (metis dropWhile_eq_drop rev_drop rev_rev_ident rev_take length_rev)
  then obtain n where n: "strip s = take n t" ..
  with False have "n \<noteq> 0" by auto
  with n tne have "hd (strip s) = hd t" by (cases t; cases n) auto
  with ht 1 show ?thesis by simp
qed

lemma strip_fix: "s = [] \<or> (\<not> isspace (hd s) \<and> \<not> isspace (last s)) \<Longrightarrow> strip s = s"
proof (cases "s = []")
  case True
  then show ?thesis by (simp add: strip_def)
next
  case False
  assume "s = [] \<or> (\<not> isspace (hd s) \<and> \<not> isspace (last s))"
  with False have h: "\<not> isspace (hd s)" and l: "\<not> isspace (last s)" by auto
  from False h have 1: "dropWhile isspace s = s" by (cases s) auto
  from False l have 2: "dropWhile isspace (rev s) = rev s"
    by (cases s rule: rev_cases) auto
  show ?thesis by (simp add: strip_def 1 2)
qed

lemma strip_idem: "strip (strip s) = strip s"
  by (rule strip_fix) (rule strip_ends)

lemma ws_normal_clean_text: "ws_normal (clean_text x)"
  by (simp add: clean_text_def ws_normal_strip ws_normal_collapse)

lemma strip_clean_text: "strip (clean_text x) = clean_text x"
  by (simp add: clean_text_def strip_idem) (simp add: strip_def)

text \<open>
  C5, as the specification states it: \<open>clean(clean(x)) == clean(x)\<close> for all strings.
  It fails for \<open><<|a|>|b|>\<close>: one pass removes the inner token \<open><|a|>\<close> and leaves
  \<open><|b|>\<close>, which a second pass removes.
\<close>

theorem clean_text_not_idempotent:
  "clean_text (clean_text (ascii ''<<|a|>|b|>'')) \<noteq> clean_text (ascii ''<<|a|>|b|>'')"
  by (simp add: clean_text_def ascii_def match_markup_def strip_def isspace_def)

text \<open>
  C5, amended: cleaning a cleaned text changes nothing exactly when the cleaned text holds
  no markup token any more, that is, when the removal of tokens leaves it as it is. The
  whitespace of a cleaned text is always in its final form.
\<close>

theorem clean_text_idempotent_iff:
  "clean_text (clean_text x) = clean_text x \<longleftrightarrow> remove_markup (clean_text x) = clean_text x"
proof (cases "clean_text x = []")
  case True
  then show ?thesis by (simp add: clean_text_def)
next
  case False
  define y where "y = clean_text x"
  have cy: "clean_text y = strip (collapse_ws (remove_markup y))"
    using False by (simp add: clean_text_def y_def)
  show ?thesis unfolding y_def[symmetric]
  proof
    assume "remove_markup y = y"
    then have "clean_text y = strip (collapse_ws y)" using cy by simp
    also have "collapse_ws y = y"
      unfolding y_def by (rule collapse_ws_normal) (rule ws_normal_clean_text)
    also have "strip y = y" unfolding y_def by (rule strip_clean_text)
    finally show "clean_text y = y" .
  next
    assume same: "clean_text y = y"
    have "length y = length (strip (collapse_ws (remove_markup y)))" using same cy by simp
    also have "\<dots> \<le> length (collapse_ws (remove_markup y))" by (rule length_strip)
    also have "\<dots> \<le> length (remove_markup y)" by (rule length_collapse_ws)
    finally have "length y \<le> length (remove_markup y)" .
    with length_remove_markup[of y] have "length (remove_markup y) = length y" by simp
    then show "remove_markup y = y" by (simp add: remove_markup_fix_iff)
  qed
qed

theorem clean_text_idempotent_iff_witness:
  "clean_text (clean_text (ascii ''<|zh|> a  b'')) = clean_text (ascii ''<|zh|> a  b'')"
proof -
  have "remove_markup (clean_text (ascii ''<|zh|> a  b'')) = clean_text (ascii ''<|zh|> a  b'')"
    by (simp add: clean_text_def ascii_def match_markup_def strip_def isspace_def)
  then show ?thesis using clean_text_idempotent_iff[of "ascii ''<|zh|> a  b''"] by simp
qed

section \<open>Properties of the segmenter\<close>

subsection \<open>Degenerate input\<close>

text \<open>
  C6: if the timestamp sequence or the word sequence is empty, or their lengths differ,
  the segmenter returns the empty sequence and raises nothing, whatever the text is.
\<close>

theorem degenerate_input_gives_no_segments:
  "timestamps = [] \<or> words = [] \<or> length timestamps \<noteq> length words \<Longrightarrow>
   create_segments_from_timestamps text timestamps words = Inr []"
  by (simp add: create_segments_from_timestamps_def)

theorem degenerate_input_gives_no_segments_witness:
  "create_segments_from_timestamps (ascii ''ab'') [] [] = Inr [] \<and>
   create_segments_from_timestamps (ascii ''ab'') [[0, 100]] [ascii ''a'', ascii ''b''] = Inr []"
  using degenerate_input_gives_no_segments[of "[]" "[]" "ascii ''ab''"]
    degenerate_input_gives_no_segments[of "[[0, 100]]" "[ascii ''a'', ascii ''b'']" "ascii ''ab''"]
  by simp

subsection \<open>Closing a segment\<close>

text \<open>
  The example of the specification, for any five timestamps of two entries: the words
  U+4F60, U+597D, U+3002, U+518D, U+89C1 give two segments, the first up to the end of the
  full stop, the second up to the end of the last word.
\<close>

lemma punctuation_boundary_example:
  "create_segments_from_timestamps text [[s1, e1], [s2, e2], [s3, e3], [s4, e4], [s5, e5]]
     [[20320], [22909], [12290], [20877], [35265]] =
   Inr [\<lparr>seg_text = [20320, 22909, 12290],
          seg_start = Some (ms_to_sec s1), seg_end = Some (ms_to_sec e3),
          seg_words = [\<lparr>w_word = [20320], w_start = ms_to_sec s1, w_end = ms_to_sec e1\<rparr>,
                       \<lparr>w_word = [22909], w_start = ms_to_sec s2, w_end = ms_to_sec e2\<rparr>,
                       \<lparr>w_word = [12290], w_start = ms_to_sec s3, w_end = ms_to_sec e3\<rparr>]\<rparr>,
        \<lparr>seg_text = [20877, 35265],
          seg_start = Some (ms_to_sec s4), seg_end = Some (ms_to_sec e5),
          seg_words = [\<lparr>w_word = [20877], w_start = ms_to_sec s4, w_end = ms_to_sec e4\<rparr>,
                       \<lparr>w_word = [35265], w_start = ms_to_sec s5, w_end = ms_to_sec e5\<rparr>]\<rparr>]"
  by (simp add: create_segments_from_timestamps_def enumerate_def seg_step_def bind_def
      is_markup_def terminators_def init_state_def empty_segment_def upt_rec Let_def strip_def
      isspace_def)

text \<open>A word that is not markup closes the segment exactly when it is one of the eight
  marks or stands at the last index; a segment of whitespace only is not appended.\<close>

lemma seg_step_word:
  "\<not> is_markup w \<Longrightarrow>
   seg_step n (i, w, [s, e]) st =
     Inr (if w \<in> set terminators \<or> i = n - 1 then
            \<lparr>segments =
               (if strip (seg_text (extend_segment (current_segment st) w s e)) \<noteq> [] then
                  segments st @ [extend_segment (current_segment st) w s e]
                else segments st),
             current_segment = empty_segment\<rparr>
          else st\<lparr>current_segment := extend_segment (current_segment st) w s e\<rparr>)"
  by (simp add: seg_step_def Let_def extend_segment_def)

text \<open>The same one word, as the whole stream, is closed at the last index.\<close>

lemma last_word_closes_segment:
  "create_segments_from_timestamps text [[0, 125]] [ascii ''a''] =
   Inr [\<lparr>seg_text = ascii ''a'', seg_start = Some 0, seg_end = Some (1 / 8),
          seg_words = [\<lparr>w_word = ascii ''a'', w_start = 0, w_end = 1 / 8\<rparr>]\<rparr>]"
  by (simp add: create_segments_from_timestamps_def enumerate_def seg_step_def bind_def
      is_markup_def ascii_def terminators_def init_state_def empty_segment_def upt_rec Let_def
      ms_to_sec_def strip_def isspace_def)

text \<open>
  C2: a segment is closed when the current word is the last word of the stream. The
  source tests the index of the last word only after it has passed over markup with
  \<open>continue\<close>, so a stream that ends in a markup token never closes its last segment:
  the word \<open>a\<close> followed by the token \<open><|x|>\<close> gives no segment at all.
\<close>

theorem last_markup_word_loses_segment:
  "create_segments_from_timestamps text [[0, 125], [125, 250]] [ascii ''a'', ascii ''<|x|>''] =
   Inr []"
  by (simp add: create_segments_from_timestamps_def enumerate_def seg_step_def bind_def
      is_markup_def ascii_def terminators_def init_state_def empty_segment_def upt_rec Let_def)

subsection \<open>Order of the segments\<close>



lemma seg_step_markup: "is_markup w \<Longrightarrow> seg_step n (i, w, ts) st = Inr st"
  by (simp add: seg_step_def)









subsection \<open>Markup words\<close>

lemma seg_loop_filter:
  "seg_loop n (filter (\<lambda>x. \<not> is_markup (fst (snd x))) ixs) st = seg_loop n ixs st"
proof (induction ixs arbitrary: st)
  case Nil
  show ?case by simp
next
  case (Cons x ixs)
  obtain i w ts where x: "x = (i, w, ts)" by (cases x) auto
  show ?case
  proof (cases "is_markup w")
    case True
    with Cons x show ?thesis by (simp add: seg_step_markup bind_def)
  next
    case False
    with Cons x show ?thesis by (simp add: bind_def split: sum.splits)
  qed
qed
lemma extend_segment_faithful:
  "seg_faithful cur \<Longrightarrow> \<not> is_markup w \<Longrightarrow> seg_faithful (extend_segment cur w s e)"
  by (cases "seg_words cur") (simp_all add: seg_faithful_def extend_segment_def)

lemma extend_segment_words: "seg_words (extend_segment cur w s e) \<noteq> []"
  by (simp add: extend_segment_def)

lemma empty_segment_faithful: "seg_faithful empty_segment"
  by (simp add: seg_faithful_def empty_segment_def)

lemma seg_step_faithful:
  assumes "faithful_state st" "seg_step n x st = Inr st'"
  shows "faithful_state st'"
proof -
  obtain i w ts where x: "x = (i, w, ts)" by (cases x) auto
  show ?thesis
  proof (cases "is_markup w")
    case True
    with assms x show ?thesis by (simp add: seg_step_markup)
  next
    case False
    with assms(2) x obtain s e where ts: "ts = [s, e]"
      by (auto simp: seg_step_def split: list.splits)
    from assms(1) have cur: "seg_faithful (current_segment st)"
      and old: "\<forall>s\<in>set (segments st). seg_faithful s \<and> seg_words s \<noteq> []"
      by (simp_all add: faithful_state_def)
    from extend_segment_faithful[OF cur False]
    have new: "seg_faithful (extend_segment (current_segment st) w s e)" .
    from assms(2) x ts False
    have "st' = (if w \<in> set terminators \<or> i = n - 1 then
            \<lparr>segments =
               (if strip (seg_text (extend_segment (current_segment st) w s e)) \<noteq> [] then
                  segments st @ [extend_segment (current_segment st) w s e]
                else segments st),
             current_segment = empty_segment\<rparr>
          else st\<lparr>current_segment := extend_segment (current_segment st) w s e\<rparr>)"
      by (simp add: seg_step_word)
    with new old show ?thesis
      by (simp add: faithful_state_def empty_segment_faithful extend_segment_words)
  qed
qed

lemma seg_loop_faithful:
  "faithful_state st \<Longrightarrow> seg_loop n ixs st = Inr st' \<Longrightarrow> faithful_state st'"
proof (induction ixs arbitrary: st)
  case Nil
  then show ?case by simp
next
  case (Cons x ixs)
  from Cons.prems(2) obtain st1 where s1: "seg_step n x st = Inr st1"
    and l: "seg_loop n ixs st1 = Inr st'"
    by (auto simp: bind_def split: sum.splits)
  from seg_step_faithful[OF Cons.prems(1) s1] have "faithful_state st1" .
  from Cons.IH[OF this l] show ?case .
qed

lemma faithful_init: "faithful_state init_state"
  by (simp add: faithful_state_def init_state_def seg_faithful_def empty_segment_def)

text \<open>
  C9: a word that begins with \<open><|\<close> and ends with \<open>|>\<close> is skipped. Its round of the loop
  leaves the segments and the open segment, with its start and end, as they are; the
  result is that of the same loop over the words that are not markup, each at its own
  index; and every returned segment is made of the word records of its own words, none of
  them markup: its text is their concatenation, its start the start of the first and its
  end the end of the last.
\<close>

theorem markup_words_are_skipped:
  "(is_markup w \<longrightarrow> seg_step n (i, w, ts) st = Inr st) \<and>
   create_segments_from_timestamps text timestamps words =
     (if timestamps = [] \<or> words = [] \<or> length timestamps \<noteq> length words then Inr []
      else bind (seg_loop (length words)
                   (filter (\<lambda>x. \<not> is_markup (fst (snd x))) (enumerate (zip words timestamps)))
                   init_state)
             (\<lambda>st. Inr (segments st))) \<and>
   (create_segments_from_timestamps text timestamps words = Inr segs \<longrightarrow>
      (\<forall>s\<in>set segs.
         seg_text s = concat (map w_word (seg_words s)) \<and>
         (\<forall>r\<in>set (seg_words s). \<not> is_markup (w_word r)) \<and>
         seg_words s \<noteq> [] \<and>
         seg_start s = Some (w_start (hd (seg_words s))) \<and>
         seg_end s = Some (w_end (last (seg_words s)))))"
proof (intro conjI impI)
  assume "is_markup w"
  then show "seg_step n (i, w, ts) st = Inr st" by (rule seg_step_markup)
next
  show "create_segments_from_timestamps text timestamps words =
     (if timestamps = [] \<or> words = [] \<or> length timestamps \<noteq> length words then Inr []
      else bind (seg_loop (length words)
                   (filter (\<lambda>x. \<not> is_markup (fst (snd x))) (enumerate (zip words timestamps)))
                   init_state)
             (\<lambda>st. Inr (segments st)))"
    by (simp only: seg_loop_filter create_segments_from_timestamps_def)
next
  assume r: "create_segments_from_timestamps text timestamps words = Inr segs"
  show "\<forall>s\<in>set segs.
         seg_text s = concat (map w_word (seg_words s)) \<and>
         (\<forall>r\<in>set (seg_words s). \<not> is_markup (w_word r)) \<and>
         seg_words s \<noteq> [] \<and>
         seg_start s = Some (w_start (hd (seg_words s))) \<and>
         seg_end s = Some (w_end (last (seg_words s)))"
  proof (cases "timestamps = [] \<or> words = [] \<or> length timestamps \<noteq> length words")
    case True
    with r show ?thesis by (auto simp: create_segments_from_timestamps_def)
  next
    case False
    with r obtain st' where
      l: "seg_loop (length words) (enumerate (zip words timestamps)) init_state = Inr st'"
      and segs: "segs = segments st'"
      by (auto simp: create_segments_from_timestamps_def bind_def split: sum.splits)
    from seg_loop_faithful[OF faithful_init l] have "faithful_state st'" .
    then have "\<forall>s\<in>set segs. seg_faithful s \<and> seg_words s \<noteq> []"
      unfolding segs by (simp add: faithful_state_def)
    then show ?thesis
      by (auto simp: seg_faithful_def list_all_iff)
  qed
qed

theorem markup_words_are_skipped_witness:
  "is_markup (ascii ''<|x|>'') \<and>
   seg_step 3 (1, ascii ''<|x|>'', [125, 250]) init_state = Inr init_state \<and>
   create_segments_from_timestamps (ascii ''ab'') [[0, 125], [125, 250], [250, 500]]
     [ascii ''a'', ascii ''<|x|>'', ascii ''b''] =
   Inr [\<lparr>seg_text = ascii ''ab'', seg_start = Some 0, seg_end = Some (1 / 2),
          seg_words = [\<lparr>w_word = ascii ''a'', w_start = 0, w_end = 1 / 8\<rparr>,
                       \<lparr>w_word = ascii ''b'', w_start = 1 / 4, w_end = 1 / 2\<rparr>]\<rparr>]"
proof -
  have m: "is_markup (ascii ''<|x|>'')" by (simp add: is_markup_def ascii_def)
  have f: "filter (\<lambda>x. \<not> is_markup (fst (snd x)))
       (enumerate (zip [ascii ''a'', ascii ''<|x|>'', ascii ''b'']
          [[0, 125], [125, 250], [250, 500]])) =
     [(0, ascii ''a'', [0, 125]), (2, ascii ''b'', [250, 500])]"
    by (simp add: enumerate_def upt_rec is_markup_def ascii_def)
  note t = markup_words_are_skipped[of "ascii ''<|x|>''" 3 1 "[125, 250]" init_state
      "ascii ''ab''" "[[0, 125], [125, 250], [250, 500]]"
      "[ascii ''a'', ascii ''<|x|>'', ascii ''b'']" "[]"]
  from t m have 1: "seg_step 3 (1, ascii ''<|x|>'', [125, 250]) init_state = Inr init_state"
    by blast
  from t[THEN conjunct2, THEN conjunct1]
  have 2: "create_segments_from_timestamps (ascii ''ab'') [[0, 125], [125, 250], [250, 500]]
       [ascii ''a'', ascii ''<|x|>'', ascii ''b''] =
     Inr [\<lparr>seg_text = ascii ''ab'', seg_start = Some 0, seg_end = Some (1 / 2),
          seg_words = [\<lparr>w_word = ascii ''a'', w_start = 0, w_end = 1 / 8\<rparr>,
                       \<lparr>w_word = ascii ''b'', w_start = 1 / 4, w_end = 1 / 2\<rparr>]\<rparr>]"
    unfolding f
    by (simp add: seg_step_def bind_def is_markup_def ascii_def terminators_def init_state_def
        empty_segment_def Let_def ms_to_sec_def strip_def isspace_def)
  from m 1 2 show ?thesis by blast
qed

section \<open>Properties of the time codes\<close>

lemma replicate_2: "replicate 2 x = [x, x]"
  by (simp add: numeral_2_eq_2)

lemma dec_nat_1: "n < 10 \<Longrightarrow> dec_nat n = [48 + n]"
  by (subst dec_nat.simps) simp

lemma dec_nat_2: "10 \<le> n \<Longrightarrow> n < 100 \<Longrightarrow> dec_nat n = [48 + n div 10, 48 + n mod 10]"
  by (subst dec_nat.simps) (simp add: dec_nat_1)

lemma dec_nat_3:
  "100 \<le> n \<Longrightarrow> n < 1000 \<Longrightarrow> dec_nat n = [48 + n div 100, 48 + n div 10 mod 10, 48 + n mod 10]"
  by (subst dec_nat.simps) (simp add: dec_nat_2 div_mult2_eq[symmetric])

lemma format_0d_2: "0 \<le> n \<Longrightarrow> n < 100 \<Longrightarrow> format_0d 2 n = two_digits (nat n)"
proof -
  assume n: "0 \<le> n" "n < 100"
  show ?thesis
  proof (cases "nat n < 10")
    case True
    with n show ?thesis by (simp add: format_0d_def two_digits_def dec_nat_1)
  next
    case False
    with n have "10 \<le> nat n" "nat n < 100" by auto
    with n show ?thesis by (simp add: format_0d_def two_digits_def dec_nat_2)
  qed
qed

lemma format_0d_3: "0 \<le> n \<Longrightarrow> n < 1000 \<Longrightarrow> format_0d 3 n = three_digits (nat n)"
proof -
  assume n: "0 \<le> n" "n < 1000"
  consider "nat n < 10" | "10 \<le> nat n" "nat n < 100" | "100 \<le> nat n" "nat n < 1000"
    using n by linarith
  then show ?thesis
  proof cases
    case 1
    with n show ?thesis by (simp add: format_0d_def three_digits_def dec_nat_1 replicate_2)
  next
    case 2
    with n show ?thesis by (simp add: format_0d_def three_digits_def dec_nat_2)
  next
    case 3
    with n show ?thesis by (simp add: format_0d_def three_digits_def dec_nat_3)
  qed
qed

lemma floor_divide_int:
  fixes a :: rat and b :: int
  assumes b: "0 < b"
  shows "\<lfloor>a / of_int b\<rfloor> = \<lfloor>a\<rfloor> div b"
proof (rule floor_unique)
  define q where "q = \<lfloor>a\<rfloor> div b"
  define r where "r = \<lfloor>a\<rfloor> mod b"
  have fl: "\<lfloor>a\<rfloor> = q * b + r" by (simp add: q_def r_def)
  have r: "0 \<le> r" "r < b" using b by (simp_all add: r_def)
  have bpos: "(0::rat) < of_int b" using b by simp
  have "of_int (q * b) \<le> (of_int \<lfloor>a\<rfloor> :: rat)" using fl r by simp
  also have "\<dots> \<le> a" by simp
  finally have "of_int q * of_int b \<le> a" by simp
  then show "of_int (\<lfloor>a\<rfloor> div b) \<le> a / of_int b"
    unfolding q_def[symmetric] using bpos by (simp add: pos_le_divide_eq)
  have "\<lfloor>a\<rfloor> + 1 \<le> (q + 1) * b" using fl r by (simp add: algebra_simps)
  then have "(of_int (\<lfloor>a\<rfloor> + 1) :: rat) \<le> of_int ((q + 1) * b)" by (simp only: of_int_le_iff)
  moreover have "a < of_int (\<lfloor>a\<rfloor> + 1)" using floor_correct[of a] by blast
  ultimately have "a < (of_int q + 1) * of_int b" by simp
  then show "a / of_int b < of_int (\<lfloor>a\<rfloor> div b) + 1"
    unfolding q_def[symmetric] using bpos by (simp add: pos_divide_less_eq)
qed

lemma floor_div_3600: "\<lfloor>x / 3600\<rfloor> = \<lfloor>x :: rat\<rfloor> div 3600"
  using floor_divide_int[of 3600 x] by simp

lemma floor_div_60: "\<lfloor>x / 60\<rfloor> = \<lfloor>x :: rat\<rfloor> div 60"
  using floor_divide_int[of 60 x] by simp

lemma hours_eq: "0 \<le> x \<Longrightarrow> py_int (py_floordiv x 3600) = \<lfloor>x\<rfloor> div 3600"
  by (simp add: py_int_def py_floordiv_def floor_div_3600 pos_imp_zdiv_nonneg_iff)

lemma minutes_eq: "py_int (py_floordiv (py_mod x 3600) 60) = \<lfloor>x\<rfloor> div 60 mod 60"
proof -
  have "py_mod x 3600 / 60 = x / 60 - of_int (60 * \<lfloor>x / 3600\<rfloor>)"
    by (simp add: py_mod_def field_simps)
  then have "\<lfloor>py_mod x 3600 / 60\<rfloor> = \<lfloor>x / 60\<rfloor> - 60 * \<lfloor>x / 3600\<rfloor>"
    by (simp only: floor_diff_of_int)
  also have "\<dots> = \<lfloor>x\<rfloor> div 60 - 60 * (\<lfloor>x\<rfloor> div 60 div 60)"
    by (simp add: floor_div_60 floor_div_3600 zdiv_zmult2_eq)
  also have "\<dots> = \<lfloor>x\<rfloor> div 60 mod 60"
    by (simp add: minus_mult_div_eq_mod)
  finally have f: "\<lfloor>py_mod x 3600 / 60\<rfloor> = \<lfloor>x\<rfloor> div 60 mod 60" .
  have "0 \<le> \<lfloor>x\<rfloor> div 60 mod 60" by simp
  then have "(0::rat) \<le> of_int (\<lfloor>x\<rfloor> div 60 mod 60)" by (simp only: of_int_0_le_iff)
  then show ?thesis by (simp add: py_int_def py_floordiv_def f)
qed

lemma py_mod_60_range: "0 \<le> py_mod x 60 \<and> py_mod x 60 < 60"
proof -
  have "of_int \<lfloor>x / 60\<rfloor> \<le> x / 60" "x / 60 < of_int \<lfloor>x / 60\<rfloor> + 1"
    using floor_correct[of "x / 60"] by simp_all
  then show ?thesis unfolding py_mod_def by linarith
qed

lemma secs_eq: "py_int (py_mod x 60) = \<lfloor>x\<rfloor> mod 60"
proof -
  have "py_mod x 60 = x - of_int (60 * \<lfloor>x / 60\<rfloor>)" by (simp add: py_mod_def)
  then have "\<lfloor>py_mod x 60\<rfloor> = \<lfloor>x\<rfloor> - 60 * \<lfloor>x / 60\<rfloor>" by (simp only: floor_diff_of_int)
  also have "\<dots> = \<lfloor>x\<rfloor> mod 60" by (simp add: floor_div_60 minus_mult_div_eq_mod)
  finally show ?thesis using py_mod_60_range[of x] by (simp add: py_int_def)
qed

lemma millis_eq: "0 \<le> x \<Longrightarrow> py_int ((x - of_int (py_int x)) * 1000) = \<lfloor>x * 1000\<rfloor> mod 1000"
proof -
  assume x: "0 \<le> x"
  have "(x - of_int \<lfloor>x\<rfloor>) * 1000 = x * 1000 - of_int (1000 * \<lfloor>x\<rfloor>)" by (simp add: algebra_simps)
  then have "\<lfloor>(x - of_int \<lfloor>x\<rfloor>) * 1000\<rfloor> = \<lfloor>x * 1000\<rfloor> - 1000 * \<lfloor>x\<rfloor>"
    by (simp only: floor_diff_of_int)
  also have "\<dots> = \<lfloor>x * 1000\<rfloor> - 1000 * (\<lfloor>x * 1000\<rfloor> div 1000)"
    using floor_divide_int[of 1000 "x * 1000"] by simp
  also have "\<dots> = \<lfloor>x * 1000\<rfloor> mod 1000"
    by (simp add: minus_mult_div_eq_mod)
  finally have f: "\<lfloor>(x - of_int \<lfloor>x\<rfloor>) * 1000\<rfloor> = \<lfloor>x * 1000\<rfloor> mod 1000" .
  have "0 \<le> x - of_int \<lfloor>x\<rfloor>" by simp
  then have nn: "0 \<le> (x - of_int \<lfloor>x\<rfloor>) * 1000" by simp
  from x have "py_int x = \<lfloor>x\<rfloor>" by (simp add: py_int_def)
  with nn f show ?thesis by (simp add: py_int_def)
qed

lemma hours_range:
  fixes n :: int
  assumes "0 \<le> n" "n < 360000"
  shows "0 \<le> n div 3600" "n div 3600 < 100"
proof -
  from assms(1) show "0 \<le> n div 3600" by (simp add: pos_imp_zdiv_nonneg_iff)
  from assms(2) have "n div 3600 \<le> 359999 div 3600" by (intro zdiv_mono1) simp_all
  then show "n div 3600 < 100" by simp
qed

lemma srt_time_digits:
  assumes "0 \<le> x" "x < 360000"
  shows "srt_time x =
     two_digits (nat (\<lfloor>x\<rfloor> div 3600)) @ [58] @ two_digits (nat (\<lfloor>x\<rfloor> div 60 mod 60)) @ [58] @
     two_digits (nat (\<lfloor>x\<rfloor> mod 60)) @ [44] @ three_digits (nat (\<lfloor>x * 1000\<rfloor> mod 1000))"
proof -
  from assms have fx: "0 \<le> \<lfloor>x\<rfloor>" "\<lfloor>x\<rfloor> < 360000" by (simp_all add: floor_less_iff)
  then have h: "0 \<le> \<lfloor>x\<rfloor> div 3600" "\<lfloor>x\<rfloor> div 3600 < 100" by (rule hours_range)+
  show ?thesis
    unfolding srt_time_def Let_def hours_eq[OF assms(1)] minutes_eq secs_eq millis_eq[OF assms(1)]
    by (simp add: format_0d_2 format_0d_3 h)
qed

lemma round_half_even_range:
  assumes "0 \<le> y" "y < of_int n"
  shows "0 \<le> round_half_even y \<and> round_half_even y \<le> n"
proof -
  from assms have "0 \<le> \<lfloor>y\<rfloor>" "\<lfloor>y\<rfloor> < n" by (simp_all add: floor_less_iff)
  then show ?thesis by (auto simp: round_half_even_def Let_def)
qed

lemma format_06_3f_digits:
  assumes "0 \<le> y" "y < 60"
  shows "format_06_3f y =
     two_digits (nat (round_half_even (y * 1000)) div 1000) @ [46] @
     three_digits (nat (round_half_even (y * 1000)) mod 1000)"
proof -
  define k where "k = nat (round_half_even (y * 1000))"
  have "0 \<le> y * 1000" "y * 1000 < of_int 60000" using assms by auto
  from round_half_even_range[OF this] have "k \<le> 60000" by (simp add: k_def nat_le_iff)
  then have d: "k div 1000 < 100" by simp
  have m: "format_0d 3 (int (k mod 1000)) = three_digits (k mod 1000)"
    using format_0d_3[of "int (k mod 1000)"] by simp
  have abs: "\<bar>y\<bar> = y" using assms by simp
  show ?thesis
  proof (cases "k div 1000 < 10")
    case True
    then show ?thesis using assms(1)
      unfolding format_06_3f_def Let_def abs k_def[symmetric] m
      by (simp add: dec_nat_1 two_digits_def three_digits_def)
  next
    case False
    with d have "10 \<le> k div 1000" "k div 1000 < 100" by simp_all
    then show ?thesis using assms(1)
      unfolding format_06_3f_def Let_def abs k_def[symmetric] m
      by (simp add: dec_nat_2 two_digits_def three_digits_def)
  qed
qed

lemma vtt_time_digits:
  assumes "0 \<le> x" "x < 360000"
  shows "vtt_time x =
     two_digits (nat (\<lfloor>x\<rfloor> div 3600)) @ [58] @ two_digits (nat (\<lfloor>x\<rfloor> div 60 mod 60)) @ [58] @
     two_digits (nat (round_half_even (py_mod x 60 * 1000)) div 1000) @ [46] @
     three_digits (nat (round_half_even (py_mod x 60 * 1000)) mod 1000)"
proof -
  from assms have fx: "0 \<le> \<lfloor>x\<rfloor>" "\<lfloor>x\<rfloor> < 360000" by (simp_all add: floor_less_iff)
  then have h: "0 \<le> \<lfloor>x\<rfloor> div 3600" "\<lfloor>x\<rfloor> div 3600 < 100" by (rule hours_range)+
  have r: "0 \<le> py_mod x 60" "py_mod x 60 < 60" using py_mod_60_range[of x] by simp_all
  show ?thesis
    unfolding vtt_time_def Let_def hours_eq[OF assms(1)] minutes_eq format_06_3f_digits[OF r]
    by (simp add: format_0d_2 h)
qed

text \<open>
  C7: 65.5 seconds are printed as \<open>00:01:05,500\<close> in SRT and 3661.25 seconds as
  \<open>01:01:01.250\<close> in VTT. For every time from 0 up to 100 hours the SRT code is two
  digits of hours, of minutes and of seconds between colons, then a comma and three
  digits of milliseconds; the VTT code has the same hours and minutes, then the seconds
  within the minute rounded to thousandths, as two digits, a dot and three digits (the
  format \<open>%06.3f\<close>). Which thousandth the SRT code shows rests on the rounding of the
  product by 1000 in the source; the statement leaves it open.
\<close>

theorem time_code_format:
  "seconds_to_srt_time (PFloat 65.5) = Inr (ascii ''00:01:05,500'') \<and>
   seconds_to_vtt_time (PFloat 3661.25) = Inr (ascii ''01:01:01.250'') \<and>
   (0 \<le> x \<and> x < 360000 \<longrightarrow>
      (\<exists>ms<1000.
         seconds_to_srt_time (PFloat x) =
           Inr (two_digits (nat (\<lfloor>x\<rfloor> div 3600)) @ [58] @
                two_digits (nat (\<lfloor>x\<rfloor> div 60 mod 60)) @ [58] @
                two_digits (nat (\<lfloor>x\<rfloor> mod 60)) @ [44] @
                three_digits ms)) \<and>
      seconds_to_vtt_time (PFloat x) =
        Inr (two_digits (nat (\<lfloor>x\<rfloor> div 3600)) @ [58] @
             two_digits (nat (\<lfloor>x\<rfloor> div 60 mod 60)) @ [58] @
             two_digits (nat (round_half_even (py_mod x 60 * 1000)) div 1000) @ [46] @
             three_digits (nat (round_half_even (py_mod x 60 * 1000)) mod 1000)) \<and>
      nat (\<lfloor>x\<rfloor> div 3600) < 100 \<and> nat (\<lfloor>x\<rfloor> div 60 mod 60) < 60 \<and>
      nat (\<lfloor>x\<rfloor> mod 60) < 60 \<and>
      nat (round_half_even (py_mod x 60 * 1000)) \<le> 60000)"
proof (intro conjI impI)
  show "seconds_to_srt_time (PFloat 65.5) = Inr (ascii ''00:01:05,500'')"
    by code_simp
  show "seconds_to_vtt_time (PFloat 3661.25) = Inr (ascii ''01:01:01.250'')"
    by code_simp
next
  assume "0 \<le> x \<and> x < 360000"
  then have x: "0 \<le> x" "x < 360000" by simp_all
  have "nat (\<lfloor>x * 1000\<rfloor> mod 1000) < 1000" by (simp add: nat_less_iff)
  with srt_time_digits[OF x]
  show "\<exists>ms<1000.
         seconds_to_srt_time (PFloat x) =
           Inr (two_digits (nat (\<lfloor>x\<rfloor> div 3600)) @ [58] @
                two_digits (nat (\<lfloor>x\<rfloor> div 60 mod 60)) @ [58] @
                two_digits (nat (\<lfloor>x\<rfloor> mod 60)) @ [44] @
                three_digits ms)"
    by (auto simp: seconds_to_srt_time_def bind_def)
  from vtt_time_digits[OF x]
  show "seconds_to_vtt_time (PFloat x) =
        Inr (two_digits (nat (\<lfloor>x\<rfloor> div 3600)) @ [58] @
             two_digits (nat (\<lfloor>x\<rfloor> div 60 mod 60)) @ [58] @
             two_digits (nat (round_half_even (py_mod x 60 * 1000)) div 1000) @ [46] @
             three_digits (nat (round_half_even (py_mod x 60 * 1000)) mod 1000))"
    by (simp add: seconds_to_vtt_time_def bind_def)
  from x have fx: "0 \<le> \<lfloor>x\<rfloor>" "\<lfloor>x\<rfloor> < 360000" by (simp_all add: floor_less_iff)
  from hours_range[OF fx] show "nat (\<lfloor>x\<rfloor> div 3600) < 100" by simp
  show "nat (\<lfloor>x\<rfloor> div 60 mod 60) < 60" by (simp add: nat_less_iff)
  show "nat (\<lfloor>x\<rfloor> mod 60) < 60" by (simp add: nat_less_iff)
  have "0 \<le> py_mod x 60 * 1000" "py_mod x 60 * 1000 < of_int 60000"
    using py_mod_60_range[of x] by auto
  from round_half_even_range[OF this]
  show "nat (round_half_even (py_mod x 60 * 1000)) \<le> 60000" by (simp add: nat_le_iff)
qed

theorem time_code_format_witness:
  "(0 :: rat) \<le> 59.999755859375 \<and> (59.999755859375 :: rat) < 360000 \<and>
   (\<exists>ms<1000. seconds_to_srt_time (PFloat 59.999755859375) =
      Inr (ascii ''00:00:59,'' @ three_digits ms)) \<and>
   seconds_to_vtt_time (PFloat 59.999755859375) = Inr (ascii ''00:00:60.000'')"
proof -
  have r: "(0 :: rat) \<le> 59.999755859375 \<and> (59.999755859375 :: rat) < 360000" by simp
  have f: "\<lfloor>59.999755859375 :: rat\<rfloor> = 59" by code_simp
  have k: "round_half_even (py_mod 59.999755859375 60 * 1000) = 60000" by code_simp
  have d: "two_digits (nat (59 div 3600)) = ascii ''00''"
    "two_digits (nat (59 div 60 mod 60)) = ascii ''00''"
    "two_digits (nat (59 mod 60)) = ascii ''59''"
    "two_digits (nat 60000 div 1000) = ascii ''60''"
    "three_digits (nat 60000 mod 1000) = ascii ''000''"
    by (simp_all add: two_digits_def three_digits_def ascii_def)
  note t = time_code_format[of "59.999755859375", THEN conjunct2, THEN conjunct2, rule_format, OF r]
  from t obtain ms where "ms < 1000"
    "seconds_to_srt_time (PFloat 59.999755859375) =
        Inr (two_digits (nat (\<lfloor>59.999755859375 :: rat\<rfloor> div 3600)) @ [58] @
             two_digits (nat (\<lfloor>59.999755859375 :: rat\<rfloor> div 60 mod 60)) @ [58] @
             two_digits (nat (\<lfloor>59.999755859375 :: rat\<rfloor> mod 60)) @ [44] @
             three_digits ms)"
    by blast
  then have a: "\<exists>ms<1000. seconds_to_srt_time (PFloat 59.999755859375) =
      Inr (ascii ''00:00:59,'' @ three_digits ms)"
    unfolding f d by (auto simp: ascii_def)
  from t have "seconds_to_vtt_time (PFloat 59.999755859375) =
        Inr (two_digits (nat (\<lfloor>59.999755859375 :: rat\<rfloor> div 3600)) @ [58] @
             two_digits (nat (\<lfloor>59.999755859375 :: rat\<rfloor> div 60 mod 60)) @ [58] @
             two_digits (nat (round_half_even (py_mod 59.999755859375 60 * 1000)) div 1000) @ [46] @
             three_digits (nat (round_half_even (py_mod 59.999755859375 60 * 1000)) mod 1000))"
    by blast
  then have b: "seconds_to_vtt_time (PFloat 59.999755859375) = Inr (ascii ''00:00:60.000'')"
    unfolding f k d by (simp add: ascii_def)
  from r a b show ?thesis by blast
qed

section \<open>Properties of the renderer\<close>

subsection \<open>Tier 1\<close>





subsection \<open>Tier 2\<close>

lemma srt_segments_loop_none:
  "\<forall>x\<in>set ixs. \<not> (dict_has (snd x) (ascii ''start'') \<and> dict_has (snd x) (ascii ''end'')) \<Longrightarrow>
   srt_segments_loop B ixs acc = Inr acc"
  by (induction ixs arbitrary: acc) auto

lemma set_enumerate_snd: "x \<in> set (enumerate xs) \<Longrightarrow> snd x \<in> set xs"
  by (cases x) (auto simp: enumerate_def elim: in_set_zipE)

text \<open>
  C10: for a successful result whose \<open>formatted_segments\<close> is absent or empty and whose
  \<open>segments\<close> is a non-empty list without any dictionary that has both a \<open>start\<close> and an
  \<open>end\<close> key, the SRT text is the empty string, whatever the \<open>text\<close> of the result is: no
  block is written and the fallback on the full text is not taken.
\<close>

theorem segments_without_times_render_empty:
  assumes ok: "map_of result (ascii ''success'') = Some s" "truthy s"
    and nofs: "case map_of result (ascii ''formatted_segments'') of
                 None \<Rightarrow> True | Some v \<Rightarrow> \<not> truthy v"
    and segs: "map_of result (ascii ''segments'') = Some (PList segs)" "segs \<noteq> []"
    and notimes: "\<forall>x\<in>set segs. \<not> (dict_has x (ascii ''start'') \<and> dict_has x (ascii ''end''))"
  shows "format_transcription_output B result (ascii ''srt'') = Inr (PStr [])"
proof -
  have "\<forall>x\<in>set (enumerate segs).
      \<not> (dict_has (snd x) (ascii ''start'') \<and> dict_has (snd x) (ascii ''end''))"
    using notimes set_enumerate_snd by blast
  then have l: "srt_segments_loop B (enumerate segs) [] = Inr []"
    by (rule srt_segments_loop_none)
  have t1: "\<not> (map_of result (ascii ''formatted_segments'') \<noteq> None \<and>
         truthy (dict_get result (ascii ''formatted_segments'') PNone))"
    using nofs by (auto simp: dict_get_def split: option.splits)
  have t2: "map_of result (ascii ''segments'') \<noteq> None \<and>
         truthy (dict_get result (ascii ''segments'') PNone)"
    using segs by (simp add: dict_get_def)
  have "format_as_srt B result =
      bind (py_iter (dict_get result (ascii ''segments'') PNone))
        (\<lambda>segments. srt_segments_loop B (enumerate segments) [])"
    unfolding format_as_srt_def by (simp only: if_not_P[OF t1] if_P[OF t2])
  then have "format_as_srt B result = Inr []"
    using segs l by (simp add: dict_get_def bind_def)
  with ok show ?thesis
    by (simp add: format_transcription_output_def bind_def ascii_def)
qed

theorem segments_without_times_render_empty_witness:
  "format_transcription_output no_builtins untimed_result (ascii ''srt'') = Inr (PStr [])"
proof -
  have 1: "map_of untimed_result (ascii ''success'') = Some (PBool True)" "truthy (PBool True)"
    by (simp_all add: untimed_result_def ascii_def)
  have 2: "case map_of untimed_result (ascii ''formatted_segments'') of
                 None \<Rightarrow> True | Some v \<Rightarrow> \<not> truthy v"
    by (simp add: untimed_result_def ascii_def)
  have 3: "map_of untimed_result (ascii ''segments'') =
      Some (PList [PStr (ascii ''hello''),
                   PDict [(ascii ''text'', PStr (ascii ''hello'')), (ascii ''start'', PFloat 0)]])"
    by (simp add: untimed_result_def ascii_def)
  have 4: "\<forall>x\<in>set [PStr (ascii ''hello''),
                   PDict [(ascii ''text'', PStr (ascii ''hello'')), (ascii ''start'', PFloat 0)]].
       \<not> (dict_has x (ascii ''start'') \<and> dict_has x (ascii ''end''))"
    by (simp add: ascii_def)
  from segments_without_times_render_empty[OF 1 2 3 _ 4] show ?thesis by simp
qed

subsection \<open>Tier 3\<close>

lemma re_split_not_Nil: "re_split P t \<noteq> []"
  by (induction t) (auto split: list.splits)



lemma re_split_pieces: "p \<in> set (re_split P t) \<Longrightarrow> c \<in> set p \<Longrightarrow> \<not> P c"
proof (induction t arbitrary: p)
  case Nil
  then show ?case by simp
next
  case (Cons a t)
  show ?case
  proof (cases "P a")
    case True
    with Cons show ?thesis by auto
  next
    case False
    obtain q qs where s: "re_split P t = q # qs"
      using re_split_not_Nil[of P t] by (cases "re_split P t") auto
    with False Cons.prems have "p = a # q \<or> p \<in> set qs" by simp
    then show ?thesis
    proof
      assume "p = a # q"
      with Cons.prems(2) have "c = a \<or> c \<in> set q" by simp
      with False Cons.IH[of q] s show ?thesis by auto
    next
      assume "p \<in> set qs"
      with Cons.IH[of p] s Cons.prems(2) show ?thesis by simp
    qed
  qed
qed

lemma set_strip: "set (strip s) \<subseteq> set s"
proof -
  have "set (strip s) = set (dropWhile isspace (rev (dropWhile isspace s)))"
    by (simp add: strip_def)
  also have "\<dots> \<subseteq> set (rev (dropWhile isspace s))" by (auto dest: set_dropWhileD)
  also have "\<dots> \<subseteq> set s" by (auto dest: set_dropWhileD)
  finally show ?thesis .
qed

lemma split_sentences_props:
  assumes "s \<in> set (split_sentences t)"
  shows "s \<noteq> []" "strip s = s" "\<forall>c\<in>set s. \<not> sentence_end c"
proof -
  from assms obtain p where p: "p \<in> set (re_split sentence_end t)" "strip p \<noteq> []" "s = strip p"
    by (auto simp: split_sentences_def)
  then show "s \<noteq> []" by simp
  from p show "strip s = s" by (simp add: strip_idem)
  from p set_strip[of p] re_split_pieces[of p sentence_end t]
  show "\<forall>c\<in>set s. \<not> sentence_end c" by auto
qed









text \<open>A sentence has none of the six characters, so the full stop is appended to every
  one of them.\<close>

lemma restore_punctuation_sentence:
  "s \<in> set (split_sentences t) \<Longrightarrow> restore_punctuation s = s @ [12290]"
  using split_sentences_props[of s t]
  by (auto simp: restore_punctuation_def ends_with_sentence_end_def)

subsection \<open>Exceptions\<close>


end
